theory Spec2Isabelle
  imports Main
begin

section \<open>Python values used by the scripts\<close>

text \<open>
  A Python \<open>str\<close> is a \<^typ>\<open>string\<close>; one character of the model stands for one code
  point, so \<^const>\<open>length\<close> is Python's \<open>len\<close>. The page counter and all counts only grow
  from a non-negative start, so they are natural numbers.
\<close>

text \<open>\<open>str(n)\<close>, as the f-strings apply it to the page counter and to counts.\<close>

fun str_nat :: "nat \<Rightarrow> string" where
  "str_nat n =
     (if n < 10 then [''0123456789'' ! n]
      else str_nat (n div 10) @ [''0123456789'' ! (n mod 10)])"

declare str_nat.simps [simp del]

text \<open>\<open>sep.join(xs)\<close>.\<close>

fun join :: "string \<Rightarrow> string list \<Rightarrow> string" where
  "join sep [] = []"
| "join sep [x] = x"
| "join sep (x # y # ys) = x @ sep @ join sep (y # ys)"

text \<open>\<open>str.isspace\<close> on one character (code points below 256) and \<open>str.strip()\<close>.\<close>

definition isspace :: "char \<Rightarrow> bool" where
  "isspace c = ((of_char c :: nat) \<in> {9, 10, 11, 12, 13, 28, 29, 30, 31, 32, 133, 160})"

definition strip :: "string \<Rightarrow> string" where
  "strip s = rev (dropWhile isspace (rev (dropWhile isspace s)))"

text \<open>\<open>str.split()\<close> without arguments: the maximal runs of non-space characters.\<close>

fun split_acc :: "string \<Rightarrow> string \<Rightarrow> string list" where
  "split_acc w [] = (if w = [] then [] else [w])"
| "split_acc w (c # cs) =
     (if isspace c then (if w = [] then split_acc [] cs else w # split_acc [] cs)
      else split_acc (w @ [c]) cs)"

definition split :: "string \<Rightarrow> string list" where
  "split s = split_acc [] s"


section \<open>The parse tree and the queries the scripts make on it\<close>

text \<open>
  The value of \<open>BeautifulSoup(markup, 'html.parser')\<close> is a tree of tags and strings. A
  tag has a name, its attribute dictionary (one entry per attribute name, values as
  written in the markup) and its contents.
\<close>

datatype node =
    Tag (name: string) (attrs: "(string \<times> string) list") (contents: "node list")
  | NavigableString string

text \<open>All nodes below a node, in document order; the node itself is not among them.\<close>

fun descendants :: "node \<Rightarrow> node list" where
  "descendants (Tag n a cs) = concat (map (\<lambda>c. c # descendants c) cs)"
| "descendants (NavigableString s) = []"

text \<open>
  The selectors the scripts use are a class selector (\<open>'.quote'\<close>, \<open>'.text'\<close>,
  \<open>'.author'\<close>, \<open>'.tag'\<close>, \<open>'.next'\<close>) and a tag with an attribute (\<open>'a[href]'\<close>).
\<close>

datatype selector = Class string | TagAttr string string

fun matches :: "selector \<Rightarrow> node \<Rightarrow> bool" where
  "matches sel (NavigableString s) = False"
| "matches (Class c) (Tag n a cs) =
     (case map_of a ''class'' of None \<Rightarrow> False | Some v \<Rightarrow> c \<in> set (split v))"
| "matches (TagAttr t k) (Tag n a cs) = (n = t \<and> map_of a k \<noteq> None)"

text \<open>\<open>scope.select(sel)\<close>: every matching descendant of the scope, in document order.\<close>

definition select :: "selector \<Rightarrow> node \<Rightarrow> node list" where
  "select sel scope = filter (matches sel) (descendants scope)"

text \<open>\<open>scope.select_one(sel)\<close>: the first match, or \<open>None\<close>.\<close>

definition select_one :: "selector \<Rightarrow> node \<Rightarrow> node option" where
  "select_one sel scope = (case select sel scope of [] \<Rightarrow> None | e # _ \<Rightarrow> Some e)"

fun strings :: "node \<Rightarrow> string list" where
  "strings (NavigableString s) = [s]"
| "strings (Tag n a cs) = concat (map strings cs)"

text \<open>\<open>elem.get_text(strip=True)\<close>: the stripped, non-empty strings below the element, joined.\<close>

definition get_text_strip :: "node \<Rightarrow> string" where
  "get_text_strip e = concat (filter (\<lambda>s. s \<noteq> []) (map strip (strings e)))"

text \<open>\<open>elem.get(k)\<close>: the attribute's value, or \<open>None\<close>.\<close>

definition get_attr :: "node \<Rightarrow> string \<Rightarrow> string option" where
  "get_attr e k = (case e of Tag n a cs \<Rightarrow> map_of a k | NavigableString s \<Rightarrow> None)"


section \<open>Requests and the exceptions they raise\<close>

text \<open>
  The class of a raised exception, as far as the \<open>except\<close> clauses of the scripts tell
  classes apart: \<open>Timeout\<close>, \<open>ConnectionError\<close> and \<open>HTTPError\<close> are subclasses of
  \<open>requests.RequestException\<close>; \<open>RequestException\<close> stands for any other exception of
  that family and \<open>Exception\<close> for an exception outside it (one raised by the parser, for
  instance). The string is \<open>str(e)\<close>.
\<close>

datatype exc_class = Timeout | ConnectionError | HTTPError | RequestException | Exception

datatype exc = Exc (cls: exc_class) (msg: string)

fun is_RequestException :: "exc \<Rightarrow> bool" where
  "is_RequestException (Exc c m) = (c \<noteq> Exception)"

text \<open>
  A response carries its status line, the URL it answers, and what
  \<open>BeautifulSoup(response.text, 'html.parser')\<close> makes of its body: a tree, or the
  exception the parser raises.
\<close>

record response =
  status_code :: nat
  reason :: string
  resp_url :: string
  soup :: "exc + node"

text \<open>A site is what \<open>requests.get(url, headers=headers)\<close> does for each URL.\<close>

type_synonym site = "string \<Rightarrow> exc + response"

text \<open>\<open>response.raise_for_status()\<close>: an \<open>HTTPError\<close> for the status codes 400 to 599.\<close>

definition raise_for_status :: "response \<Rightarrow> exc + unit" where
  "raise_for_status r =
     (if 400 \<le> status_code r \<and> status_code r < 500 then
        Inl (Exc HTTPError (str_nat (status_code r) @ '' Client Error: '' @ reason r
                            @ '' for url: '' @ resp_url r))
      else if 500 \<le> status_code r \<and> status_code r < 600 then
        Inl (Exc HTTPError (str_nat (status_code r) @ '' Server Error: '' @ reason r
                            @ '' for url: '' @ resp_url r))
      else Inr ())"

text \<open>
  The three calls at the head of every \<open>try\<close> block of the scripts: get the URL, raise
  for a bad status, parse the body. The first exception raised ends the block.
\<close>

definition fetch_doc :: "site \<Rightarrow> string \<Rightarrow> exc + node" where
  "fetch_doc site u =
     (case site u of
        Inl e \<Rightarrow> Inl e
      | Inr response \<Rightarrow>
          (case raise_for_status response of
             Inl e \<Rightarrow> Inl e
           | Inr _ \<Rightarrow> soup response))"


section \<open>practical\_example.py: \<open>scrape_quotes_to_scrape\<close>\<close>

text \<open>The dictionary built for each quote; its keys are \<open>text\<close>, \<open>author\<close>, \<open>tags\<close>, \<open>page\<close>.\<close>

record quote_data =
  text_of :: string
  author_of :: string
  tags_of :: "string list"
  page_of :: nat

text \<open>
  The variables of the function, with what it has printed so far (one entry per call of
  \<open>print\<close>) and the URLs it has passed to \<open>requests.get\<close>.
\<close>

record state =
  all_quotes :: "quote_data list"
  page :: nat
  stdout :: "string list"
  requested :: "string list"

definition println :: "string \<Rightarrow> state \<Rightarrow> state" where
  "println line s = s\<lparr>stdout := stdout s @ [line]\<rparr>"

definition base_url :: string where
  "base_url = ''http://quotes.toscrape.com''"

text \<open>\<open>url = f"{base_url}/page/{page}/"\<close>\<close>

definition page_url :: "nat \<Rightarrow> string" where
  "page_url p = base_url @ ''/page/'' @ str_nat p @ ''/''"

text \<open>The dictionary of one \<open>.quote\<close> element found on page \<open>p\<close>.\<close>

definition extract_quote :: "nat \<Rightarrow> node \<Rightarrow> quote_data" where
  "extract_quote p quote =
     (let text_elem = select_one (Class ''text'') quote;
          text = (case text_elem of Some e \<Rightarrow> get_text_strip e | None \<Rightarrow> ''No text'');
          author_elem = select_one (Class ''author'') quote;
          author = (case author_elem of Some e \<Rightarrow> get_text_strip e | None \<Rightarrow> ''Unknown'');
          tag_elements = select (Class ''tag'') quote;
          tags = map get_text_strip tag_elements
      in \<lparr>text_of = text, author_of = author, tags_of = tags, page_of = p\<rparr>)"

text \<open>The body of \<open>for quote in quotes\<close>.\<close>

definition for_quote :: "node \<Rightarrow> state \<Rightarrow> state" where
  "for_quote quote s =
     (let quote_data = extract_quote (page s) quote
      in println (''  Found quote by '' @ author_of quote_data)
           (s\<lparr>all_quotes := all_quotes s @ [quote_data]\<rparr>))"

text \<open>
  How the \<open>while True\<close> loop is left: by one of its three \<open>break\<close> statements, or by an
  exception that the \<open>except requests.RequestException\<close> clause does not catch.
\<close>

datatype ending = Break_no_quotes | Break_last_page | Break_error exc | Raised exc

datatype step = Continue state | Leave ending state

text \<open>The \<open>except requests.RequestException as e\<close> clause, and what happens without it.\<close>

definition except :: "exc \<Rightarrow> state \<Rightarrow> step" where
  "except e s =
     (if is_RequestException e then
        Leave (Break_error e)
          (println (''Error scraping page '' @ str_nat (page s) @ '': '' @ msg e) s)
      else Leave (Raised e) s)"

text \<open>One pass through the body of \<open>while True\<close>.\<close>

definition iteration :: "site \<Rightarrow> state \<Rightarrow> step" where
  "iteration site s0 =
     (let u = page_url (page s0);
          s1 = println (''Scraping page '' @ str_nat (page s0) @ ''...'') s0;
          s2 = s1\<lparr>requested := requested s1 @ [u]\<rparr>
      in case fetch_doc site u of
           Inl e \<Rightarrow> except e s2
         | Inr doc \<Rightarrow>
             (let quotes = select (Class ''quote'') doc in
              if quotes = [] then
                Leave Break_no_quotes (println ''No more quotes found. Scraping complete!'' s2)
              else
                (let s3 = fold for_quote quotes s2;
                     next_btn = select_one (Class ''next'') doc
                 in if next_btn = None then
                      Leave Break_last_page (println ''Reached the last page!'' s3)
                    else Continue (s3\<lparr>page := page s3 + 1\<rparr>))))"

text \<open>The loop. It has no bound of its own: on a site that never ends it does not return.\<close>

partial_function (option) while_True :: "site \<Rightarrow> state \<Rightarrow> (ending \<times> state) option" where
  "while_True site s =
     (case iteration site s of
        Continue s' \<Rightarrow> while_True site s'
      | Leave e s' \<Rightarrow> Some (e, s'))"

definition initial :: state where
  "initial = \<lparr>all_quotes = [], page = 1,
              stdout = [''=== Scraping Quotes from quotes.toscrape.com ===''],
              requested = []\<rparr>"

text \<open>
  What a call of the function amounts to for its caller: the lines printed, the URLs
  requested, and either the returned list or the exception that escapes.
\<close>

record run =
  printed :: "string list"
  fetched :: "string list"
  outcome :: "exc + quote_data list"

definition scrape_quotes_to_scrape :: "site \<Rightarrow> run option" where
  "scrape_quotes_to_scrape site =
     (case while_True site initial of
        None \<Rightarrow> None
      | Some (Raised e, s) \<Rightarrow>
          Some \<lparr>printed = stdout s, fetched = requested s, outcome = Inl e\<rparr>
      | Some (_, s) \<Rightarrow>
          Some \<lparr>printed = stdout s @ [CHR 0x0A # ''Scraping completed! Total quotes collected: ''
                                         @ str_nat (length (all_quotes s))],
                fetched = requested s, outcome = Inr (all_quotes s)\<rparr>)"

declare while_True.simps [code]

section \<open>Vocabulary for the properties of the loop\<close>

text \<open>
  What the loop sees of page \<open>p\<close> of a site: whether the page could be fetched and
  parsed, its \<open>.quote\<close> elements, the dictionaries made of them, and whether it has a
  \<open>.next\<close> element. A page on which the loop goes on to the next one has all three.
\<close>

definition quotes_on :: "site \<Rightarrow> nat \<Rightarrow> node list" where
  "quotes_on site p =
     (case fetch_doc site (page_url p) of Inl e \<Rightarrow> [] | Inr doc \<Rightarrow> select (Class ''quote'') doc)"

definition records_on :: "site \<Rightarrow> nat \<Rightarrow> quote_data list" where
  "records_on site p = map (extract_quote p) (quotes_on site p)"

definition has_next :: "site \<Rightarrow> nat \<Rightarrow> bool" where
  "has_next site p =
     (case fetch_doc site (page_url p) of Inl e \<Rightarrow> False
      | Inr doc \<Rightarrow> select_one (Class ''next'') doc \<noteq> None)"

definition fetched_ok :: "site \<Rightarrow> nat \<Rightarrow> bool" where
  "fetched_ok site p = (case fetch_doc site (page_url p) of Inl e \<Rightarrow> False | Inr doc \<Rightarrow> True)"

definition goes_on :: "site \<Rightarrow> nat \<Rightarrow> bool" where
  "goes_on site p = (fetched_ok site p \<and> quotes_on site p \<noteq> [] \<and> has_next site p)"

fun bounded :: "nat \<Rightarrow> site \<Rightarrow> state \<Rightarrow> (ending \<times> state) option" where
  "bounded 0 site s = None"
| "bounded (Suc k) site s =
     (case iteration site s of
        Continue s' \<Rightarrow> bounded k site s'
      | Leave e s' \<Rightarrow> Some (e, s'))"

text \<open>The way the loop is left on a page where it does not go on.\<close>

definition ending_at :: "site \<Rightarrow> nat \<Rightarrow> ending" where
  "ending_at site p =
     (case fetch_doc site (page_url p) of
        Inl e \<Rightarrow> if is_RequestException e then Break_error e else Raised e
      | Inr doc \<Rightarrow> if select (Class ''quote'') doc = [] then Break_no_quotes else Break_last_page)"


definition quote_div :: "string \<Rightarrow> string \<Rightarrow> string list \<Rightarrow> node" where
  "quote_div t a gs =
     Tag ''div'' [(''class'', ''quote'')]
       ([Tag ''span'' [(''class'', ''text'')] [NavigableString t],
         Tag ''small'' [(''class'', ''author'')] [NavigableString a]]
        @ map (\<lambda>g. Tag ''a'' [(''class'', ''tag''), (''href'', ''/tag/'' @ g @ ''/'')]
                      [NavigableString g]) gs)"

definition next_li :: "string \<Rightarrow> node" where
  "next_li h = Tag ''li'' [(''class'', ''next'')] [Tag ''a'' [(''href'', h)] [NavigableString ''Next'']]"

definition document :: "node list \<Rightarrow> node" where
  "document cs = Tag ''[document]'' [] [Tag ''html'' [] [Tag ''body'' [] cs]]"

definition ok_response :: "string \<Rightarrow> node \<Rightarrow> exc + response" where
  "ok_response u d = Inr \<lparr>status_code = 200, reason = ''OK'', resp_url = u, soup = Inr d\<rparr>"

definition mock_site :: site where
  "mock_site u =
     (if u = ''http://quotes.toscrape.com/page/1/'' then
        ok_response u (document [quote_div ''A'' ''Ann'' [''a'', ''b''], quote_div ''B'' ''Bob'' [],
                                 next_li ''/page/2/''])
      else if u = ''http://quotes.toscrape.com/page/2/'' then
        ok_response u (document [quote_div ''C'' ''Cy'' [''c''], next_li ''/page/3/''])
      else if u = ''http://quotes.toscrape.com/page/3/'' then
        ok_response u (document [next_li ''/page/4/''])
      else Inl (Exc ConnectionError ''unreachable''))"

text \<open>What the function prints, requests and returns on the mock site.\<close>

definition mock_records :: "quote_data list" where
  "mock_records =
     [\<lparr>text_of = ''A'', author_of = ''Ann'', tags_of = [''a'', ''b''], page_of = 1\<rparr>,
      \<lparr>text_of = ''B'', author_of = ''Bob'', tags_of = [], page_of = 1\<rparr>,
      \<lparr>text_of = ''C'', author_of = ''Cy'', tags_of = [''c''], page_of = 2\<rparr>]"

definition mock_run :: run where
  "mock_run =
     \<lparr>printed =
        [''=== Scraping Quotes from quotes.toscrape.com ==='',
         ''Scraping page 1...'', ''  Found quote by Ann'', ''  Found quote by Bob'',
         ''Scraping page 2...'', ''  Found quote by Cy'',
         ''Scraping page 3...'', ''No more quotes found. Scraping complete!'',
         CHR 0x0A # ''Scraping completed! Total quotes collected: 3''],
      fetched =
        [''http://quotes.toscrape.com/page/1/'', ''http://quotes.toscrape.com/page/2/'',
         ''http://quotes.toscrape.com/page/3/''],
      outcome = Inr mock_records\<rparr>"


section \<open>scraper.py: the course list of \<open>scrape_flatiron_courses\<close>\<close>

text \<open>
  \<open>courses_found\<close>: the stripped text of every selected element, kept when it is
  non-empty and longer than three characters.
\<close>

definition courses_found :: "node list \<Rightarrow> string list" where
  "courses_found course_elements =
     fold (\<lambda>element found.
             let text = get_text_strip element
             in if text \<noteq> [] \<and> length text > 3 then found @ [text] else found)
          course_elements []"

text \<open>
  The loop \<open>for course in courses_found: if course not in unique_courses:
  unique_courses.append(course)\<close>, started with the list built so far.
\<close>

fun unique_loop :: "string list \<Rightarrow> string list \<Rightarrow> string list" where
  "unique_loop unique [] = unique"
| "unique_loop unique (course # rest) =
     unique_loop (if course \<notin> set unique then unique @ [course] else unique) rest"

definition unique_courses :: "string list \<Rightarrow> string list" where
  "unique_courses found = unique_loop [] found"

text \<open>The position of the first occurrence of a value in a list (its length if there is none).\<close>

definition first_pos :: "'a list \<Rightarrow> 'a \<Rightarrow> nat" where
  "first_pos xs a = length (takeWhile (\<lambda>c. c \<noteq> a) xs)"


section \<open>Values handed to the writers, and sites that fail\<close>

text \<open>
  Python values as \<open>json.dump\<close> and \<open>csv.DictWriter\<close> receive them, and the dictionary of
  a quote as its list of items, in the order of the dictionary display that builds it.
\<close>

datatype py = PyStr string | PyInt int | PyList "py list" | PyDict "(string \<times> py) list"

definition quote_dict :: "quote_data \<Rightarrow> (string \<times> py) list" where
  "quote_dict q =
     [(''text'', PyStr (text_of q)), (''author'', PyStr (author_of q)),
      (''tags'', PyList (map PyStr (tags_of q))), (''page'', PyInt (int (page_of q)))]"

text \<open>
  A \<open>.quote\<close> element with nothing in it, and three sites that are the mock site except
  for page 2: there \<open>requests.get\<close> raises a given exception, or the server answers with
  a given status, or the parser rejects the markup.
\<close>

definition bare_quote :: node where
  "bare_quote = Tag ''div'' [(''class'', ''quote'')] []"

definition failing_site :: "exc \<Rightarrow> site" where
  "failing_site e u = (if u = ''http://quotes.toscrape.com/page/2/'' then Inl e else mock_site u)"

definition status_site :: "nat \<Rightarrow> string \<Rightarrow> site" where
  "status_site code phrase u =
     (if u = ''http://quotes.toscrape.com/page/2/'' then
        Inr \<lparr>status_code = code, reason = phrase, resp_url = u, soup = Inr (document [])\<rparr>
      else mock_site u)"

definition rejected_site :: site where
  "rejected_site u =
     (if u = ''http://quotes.toscrape.com/page/2/'' then
        Inr \<lparr>status_code = 200, reason = ''OK'', resp_url = u,
             soup = Inl (Exc Exception ''ParserRejectedMarkup'')\<rparr>
      else mock_site u)"

text \<open>The line printed by the \<open>except\<close> clause and the line printed before \<open>return\<close>.\<close>

definition error_line :: "nat \<Rightarrow> exc \<Rightarrow> string" where
  "error_line n e = ''Error scraping page '' @ str_nat n @ '': '' @ msg e"

definition completed_line :: "nat \<Rightarrow> string" where
  "completed_line k = CHR 0x0A # ''Scraping completed! Total quotes collected: '' @ str_nat k"


section \<open>Sites with other link targets\<close>

text \<open>
  A tree with every \<open>href\<close> value rewritten by \<open>f\<close>, and a site that serves the same
  pages with their links rewritten so.
\<close>

fun retarget :: "(string \<Rightarrow> string) \<Rightarrow> node \<Rightarrow> node" where
  "retarget f (Tag n a cs) =
     Tag n (map (\<lambda>(k, v). (k, if k = ''href'' then f v else v)) a) (map (retarget f) cs)"
| "retarget f (NavigableString s) = NavigableString s"

definition relinked :: "(string \<Rightarrow> string) \<Rightarrow> site \<Rightarrow> site" where
  "relinked f site u =
     (case site u of
        Inl e \<Rightarrow> Inl e
      | Inr r \<Rightarrow> Inr (r\<lparr>soup := (case soup r of Inl e \<Rightarrow> Inl e | Inr d \<Rightarrow> Inr (retarget f d))\<rparr>))"


section \<open>practical\_example.py: \<open>analyze_scraped_data\<close>\<close>

text \<open>The exception that indexing a list out of range raises.\<close>

datatype py_error = IndexError

text \<open>\<open>xs[i]\<close>: a negative index counts from the end; an index out of range raises.\<close>

definition getitem :: "'a list \<Rightarrow> int \<Rightarrow> py_error + 'a" where
  "getitem xs i =
     (if 0 \<le> i \<and> i < int (length xs) then Inr (xs ! nat i)
      else if i < 0 \<and> - int (length xs) \<le> i then Inr (xs ! nat (int (length xs) + i))
      else Inl IndexError)"

text \<open>
  \<open>d[k] = d.get(k, 0) + 1\<close> on a dictionary held as its items in insertion order, and
  \<open>sorted(d.items(), key=lambda x: x[1], reverse=True)\<close>, which is stable: items with equal
  counts keep their order.
\<close>

fun count_up :: "(string \<times> nat) list \<Rightarrow> string \<Rightarrow> (string \<times> nat) list" where
  "count_up [] k = [(k, 1)]"
| "count_up ((k', c) # d) k = (if k' = k then (k', c + 1) # d else (k', c) # count_up d k)"

definition sorted_by_count_reverse :: "(string \<times> nat) list \<Rightarrow> (string \<times> nat) list" where
  "sorted_by_count_reverse items = rev (sort_key snd (rev items))"

text \<open>
  \<open>quote_lengths\<close>, after \<open>quote_lengths.sort(key=lambda x: x[0])\<close>: one triple of length,
  text and author per quote, in a stable order of the lengths.
\<close>

definition quote_lengths :: "quote_data list \<Rightarrow> (nat \<times> string \<times> string) list" where
  "quote_lengths quotes =
     sort_key fst (map (\<lambda>quote. (length (text_of quote), text_of quote, author_of quote)) quotes)"

text \<open>
  The function prints and returns nothing; the model gives the lines printed when it
  returns, or the exception it raises.
\<close>

definition analyze_scraped_data :: "quote_data list \<Rightarrow> py_error + string list" where
  "analyze_scraped_data quotes =
     (let out0 = [CHR 0x0A # ''=== Data Analysis ===''] in
      if quotes = [] then Inr (out0 @ [''No quotes to analyze!''])
      else
        (let author_counts = fold (\<lambda>quote d. count_up d (author_of quote)) quotes [];
             sorted_authors = sorted_by_count_reverse author_counts;
             out1 = out0 @ [''Top authors by number of quotes:'']
                    @ map (\<lambda>(author, count). ''  '' @ author @ '': '' @ str_nat count @ '' quotes'')
                        (take 5 sorted_authors);
             all_tags = concat (map tags_of quotes);
             tag_counts = fold (\<lambda>tag d. count_up d tag) all_tags [];
             sorted_tags = sorted_by_count_reverse tag_counts;
             out2 = out1 @ [CHR 0x0A # ''Most common tags:'']
                    @ map (\<lambda>(tag, count). ''  '' @ tag @ '': '' @ str_nat count @ '' times'')
                        (take 10 sorted_tags)
         in case getitem (quote_lengths quotes) 0 of
              Inl e \<Rightarrow> Inl e
            | Inr shortest \<Rightarrow>
                (case getitem (quote_lengths quotes) (- 1) of
                   Inl e \<Rightarrow> Inl e
                 | Inr longest \<Rightarrow>
                     Inr (out2
                          @ [CHR 0x0A # ''Shortest quote ('' @ str_nat (fst shortest) @ '' chars) by ''
                               @ snd (snd shortest) @ '':'',
                             ''  \"'' @ fst (snd shortest) @ ''\"'' @ [CHR 0x0A],
                             CHR 0x0A # ''Longest quote ('' @ str_nat (fst longest) @ '' chars) by ''
                               @ snd (snd longest) @ '':'',
                             (if length (fst (snd longest)) > 100
                              then ''  \"'' @ take 100 (fst (snd longest)) @ ''...\"''
                              else ''  \"'' @ fst (snd longest) @ ''\"'')]))))"


section \<open>The loop and its bounded unfolding\<close>

lemma bounded_while_True:
  "bounded k site s = Some r \<Longrightarrow> while_True site s = Some r"
proof (induction k arbitrary: s)
  case 0
  then show ?case by simp
next
  case (Suc k)
  show ?case
  proof (cases "iteration site s")
    case (Continue s')
    with Suc.prems have "bounded k site s' = Some r" by simp
    then have "while_True site s' = Some r" by (rule Suc.IH)
    with Continue show ?thesis by (subst while_True.simps) simp
  next
    case (Leave e s')
    with Suc.prems show ?thesis by (subst while_True.simps) simp
  qed
qed

lemma while_True_bounded:
  "while_True site s = Some r \<Longrightarrow> \<exists>k. bounded k site s = Some r"
proof (induction rule: while_True.raw_induct[rotated 1, consumes 1])
  case (1 loop site s r)
  show ?case
  proof (cases "iteration site s")
    case (Continue s')
    with 1(2) have "loop site s' = Some r" by simp
    then obtain k where "bounded k site s' = Some r" using 1(1) by blast
    with Continue have "bounded (Suc k) site s = Some r" by simp
    then show ?thesis by blast
  next
    case (Leave e s')
    with 1(2) have "bounded (Suc 0) site s = Some r" by simp
    then show ?thesis by blast
  qed
qed

lemma fold_for_quote:
  "all_quotes (fold for_quote qs s) = all_quotes s @ map (extract_quote (page s)) qs
   \<and> page (fold for_quote qs s) = page s
   \<and> requested (fold for_quote qs s) = requested s"
  by (induction qs arbitrary: s) (simp_all add: for_quote_def println_def Let_def)

lemma iteration_goes_on:
  assumes "goes_on site (page s)"
  shows "\<exists>s'. iteration site s = Continue s' \<and> page s' = Suc (page s)
           \<and> all_quotes s' = all_quotes s @ records_on site (page s)
           \<and> requested s' = requested s @ [page_url (page s)]"
proof -
  from assms obtain doc where d: "fetch_doc site (page_url (page s)) = Inr doc"
    by (auto simp: goes_on_def fetched_ok_def split: sum.splits)
  with assms have q: "select (Class ''quote'') doc \<noteq> []"
    and n: "select_one (Class ''next'') doc \<noteq> None"
    by (auto simp: goes_on_def quotes_on_def has_next_def)
  show ?thesis
    using d q n
    by (simp add: iteration_def Let_def fold_for_quote println_def records_on_def quotes_on_def)
qed

lemma iteration_stops:
  assumes "\<not> goes_on site (page s)"
  shows "\<exists>s'. iteration site s = Leave (ending_at site (page s)) s' \<and> page s' = page s
           \<and> all_quotes s' = all_quotes s @ records_on site (page s)
           \<and> requested s' = requested s @ [page_url (page s)]"
proof (cases "fetch_doc site (page_url (page s))")
  case (Inl e)
  then show ?thesis
    by (simp add: iteration_def Let_def except_def println_def ending_at_def records_on_def
        quotes_on_def)
next
  case (Inr doc)
  show ?thesis
  proof (cases "select (Class ''quote'') doc = []")
    case True
    with Inr show ?thesis
      by (simp add: iteration_def Let_def println_def ending_at_def records_on_def quotes_on_def)
  next
    case False
    with Inr assms have "select_one (Class ''next'') doc = None"
      by (simp add: goes_on_def fetched_ok_def quotes_on_def has_next_def)
    with Inr False show ?thesis
      by (simp add: iteration_def Let_def println_def ending_at_def records_on_def quotes_on_def
          fold_for_quote)
  qed
qed

lemma bounded_result:
  "bounded k site s = Some (e, s') \<Longrightarrow>
     page s \<le> page s' \<and> (\<forall>p. page s \<le> p \<and> p < page s' \<longrightarrow> goes_on site p)
     \<and> \<not> goes_on site (page s') \<and> e = ending_at site (page s')
     \<and> all_quotes s' = all_quotes s @ concat (map (records_on site) [page s..<Suc (page s')])
     \<and> requested s' = requested s @ map page_url [page s..<Suc (page s')]"
proof (induction k arbitrary: s)
  case 0
  then show ?case by simp
next
  case (Suc k)
  show ?case
  proof (cases "goes_on site (page s)")
    case True
    from iteration_goes_on[OF True] obtain s1 where
      s1: "iteration site s = Continue s1" "page s1 = Suc (page s)"
          "all_quotes s1 = all_quotes s @ records_on site (page s)"
          "requested s1 = requested s @ [page_url (page s)]"
      by blast
    with Suc.prems have "bounded k site s1 = Some (e, s')" by simp
    from Suc.IH[OF this] have ih:
      "page s1 \<le> page s'" "\<forall>p. page s1 \<le> p \<and> p < page s' \<longrightarrow> goes_on site p"
      "\<not> goes_on site (page s')" "e = ending_at site (page s')"
      "all_quotes s' = all_quotes s1 @ concat (map (records_on site) [page s1..<Suc (page s')])"
      "requested s' = requested s1 @ map page_url [page s1..<Suc (page s')]"
      by blast+
    have le: "page s \<le> page s'" using ih(1) s1(2) by simp
    have all: "\<forall>p. page s \<le> p \<and> p < page s' \<longrightarrow> goes_on site p"
    proof (intro allI impI)
      fix p assume "page s \<le> p \<and> p < page s'"
      then show "goes_on site p"
        using True ih(2) s1(2) by (cases "p = page s") auto
    qed
    have up: "[page s..<Suc (page s')] = page s # [page s1..<Suc (page s')]"
      using le s1(2) by (simp add: upt_conv_Cons)
    show ?thesis using le all ih(3,4,5,6) s1(3,4) up by simp
  next
    case False
    from iteration_stops[OF False] obtain s1 where
      s1: "iteration site s = Leave (ending_at site (page s)) s1" "page s1 = page s"
          "all_quotes s1 = all_quotes s @ records_on site (page s)"
          "requested s1 = requested s @ [page_url (page s)]"
      by blast
    with Suc.prems have "e = ending_at site (page s)" "s' = s1" by simp_all
    with s1 False show ?thesis by auto
  qed
qed


lemma while_True_result:
  assumes "while_True site s = Some (e, s')"
  shows "page s \<le> page s' \<and> (\<forall>p. page s \<le> p \<and> p < page s' \<longrightarrow> goes_on site p)
     \<and> \<not> goes_on site (page s') \<and> e = ending_at site (page s')
     \<and> all_quotes s' = all_quotes s @ concat (map (records_on site) [page s..<Suc (page s')])
     \<and> requested s' = requested s @ map page_url [page s..<Suc (page s')]"
proof -
  from while_True_bounded[OF assms] obtain k where "bounded k site s = Some (e, s')" by blast
  then show ?thesis by (rule bounded_result)
qed


lemma page_of_records_on: "map page_of (records_on site p) = replicate (length (quotes_on site p)) p"
proof -
  have "page_of \<circ> extract_quote p = (\<lambda>_. p)"
    by (rule ext) (simp add: extract_quote_def Let_def)
  then show ?thesis by (simp add: records_on_def map_replicate_const)
qed

lemma map_page_of_concat:
  "map page_of (concat (map (records_on site) ps))
     = concat (map (\<lambda>p. replicate (length (quotes_on site p)) p) ps)"
  by (induction ps) (simp_all add: page_of_records_on)

lemma sorted_concat_replicate:
  "sorted ps \<Longrightarrow> sorted (concat (map (\<lambda>p. replicate (f p) p) ps))"
  by (induction ps) (auto simp: sorted_append)

lemma length_concat_replicate:
  "length (concat (map (\<lambda>p. replicate (f p) p) ps)) = sum_list (map f ps)"
  by (induction ps) simp_all




lemma scrape_returns:
  "while_True site initial = Some (e, s) \<Longrightarrow> (\<forall>x. e \<noteq> Raised x) \<Longrightarrow>
     map_option outcome (scrape_quotes_to_scrape site) = Some (Inr (all_quotes s))
     \<and> map_option fetched (scrape_quotes_to_scrape site) = Some (requested s)"
  by (cases e) (simp_all add: scrape_quotes_to_scrape_def)



section \<open>Pagination\<close>



text \<open>
  C2. When the function returns, it has requested the pages 1, 2, ..., \<open>n\<close> in this
  order, one request each; the list returned has one dictionary per \<open>.quote\<close> element of
  the pages that were fetched and parsed, so its length is the sum of their numbers, and
  the \<open>page\<close> values are 1 for the quotes of page 1, then 2 for those of page 2 and so on,
  hence non-decreasing.
\<close>

theorem records_counted_and_ordered_by_page:
  assumes "scrape_quotes_to_scrape site = Some r" and "outcome r = Inr records"
  shows "\<exists>n\<ge>1. fetched r = map page_url [1..<Suc n]
           \<and> map page_of records
               = concat (map (\<lambda>p. replicate (length (quotes_on site p)) p) [1..<Suc n])
           \<and> length records = sum_list (map (\<lambda>p. length (quotes_on site p)) [1..<Suc n])
           \<and> sorted (map page_of records)"
proof -
  from assms(1) obtain e s where loop: "while_True site initial = Some (e, s)"
    by (auto simp: scrape_quotes_to_scrape_def split: option.splits)
  have nr: "\<forall>x. e \<noteq> Raised x"
    using assms loop by (auto simp: scrape_quotes_to_scrape_def)
  from scrape_returns[OF loop nr] assms
  have r: "records = all_quotes s" "fetched r = requested s" by auto
  have p1: "page initial = 1" and q0: "all_quotes initial = []" and r0: "requested initial = []"
    by (simp_all add: initial_def)
  let ?n = "page s"
  from while_True_result[OF loop] p1 q0 r0
  have n: "1 \<le> ?n" and f: "requested s = map page_url [1..<Suc ?n]"
    and a: "all_quotes s = concat (map (records_on site) [1..<Suc ?n])"
    by simp_all
  have m: "map page_of records
             = concat (map (\<lambda>p. replicate (length (quotes_on site p)) p) [1..<Suc ?n])"
    using r(1) a by (simp only: map_page_of_concat)
  have l: "length records = sum_list (map (\<lambda>p. length (quotes_on site p)) [1..<Suc ?n])"
    using arg_cong[OF m, of length] by (simp only: length_map length_concat_replicate)
  have "sorted (map page_of records)"
    unfolding m by (rule sorted_concat_replicate) (rule sorted_upt)
  with n f m l r(2) show ?thesis by (intro exI[of _ ?n]) simp
qed

theorem mock_records_counted_and_ordered:
  "scrape_quotes_to_scrape mock_site = Some mock_run \<and> outcome mock_run = Inr mock_records
   \<and> (\<exists>n\<ge>1. fetched mock_run = map page_url [1..<Suc n]
           \<and> map page_of mock_records
               = concat (map (\<lambda>p. replicate (length (quotes_on mock_site p)) p) [1..<Suc n])
           \<and> length mock_records = sum_list (map (\<lambda>p. length (quotes_on mock_site p)) [1..<Suc n])
           \<and> sorted (map page_of mock_records))"
proof -
  have run: "scrape_quotes_to_scrape mock_site = Some mock_run" by code_simp
  have out: "outcome mock_run = Inr mock_records" by (simp add: mock_run_def)
  from records_counted_and_ordered_by_page[OF run out] run out show ?thesis by simp
qed

section \<open>Removing duplicate courses\<close>

lemma first_pos_append_in: "a \<in> set pre \<Longrightarrow> first_pos (pre @ ys) a = first_pos pre a"
  by (simp add: first_pos_def takeWhile_append1)

lemma first_pos_less: "a \<in> set pre \<Longrightarrow> first_pos pre a < length pre"
  unfolding first_pos_def by (induction pre) auto

lemma first_pos_append_notin:
  "a \<notin> set pre \<Longrightarrow> first_pos (pre @ ys) a = length pre + first_pos ys a"
  unfolding first_pos_def by (induction pre) auto

text \<open>
  The invariant of the loop: with \<open>pre\<close> the part of the input already read, the list
  built so far has the values of \<open>pre\<close>, each once, ordered by first occurrence.
\<close>

lemma unique_loop_inv:
  "distinct acc \<Longrightarrow> set acc = set pre \<Longrightarrow>
   sorted_wrt (\<lambda>a b. first_pos pre a < first_pos pre b) acc \<Longrightarrow>
   distinct (unique_loop acc xs) \<and> set (unique_loop acc xs) = set (pre @ xs) \<and>
   sorted_wrt (\<lambda>a b. first_pos (pre @ xs) a < first_pos (pre @ xs) b) (unique_loop acc xs)"
proof (induction xs arbitrary: acc pre)
  case Nil
  then show ?case by simp
next
  case (Cons x xs)
  let ?acc = "if x \<notin> set acc then acc @ [x] else acc"
  have d: "distinct ?acc" using Cons.prems by simp
  have s: "set ?acc = set (pre @ [x])" using Cons.prems by auto
  have old: "sorted_wrt (\<lambda>a b. first_pos (pre @ [x]) a < first_pos (pre @ [x]) b) acc"
    using Cons.prems(2,3)
    by (auto elim!: sorted_wrt_mono_rel[rotated] simp: first_pos_append_in)
  have o: "sorted_wrt (\<lambda>a b. first_pos (pre @ [x]) a < first_pos (pre @ [x]) b) ?acc"
  proof (cases "x \<in> set acc")
    case True
    then show ?thesis using old by simp
  next
    case False
    then have "x \<notin> set pre" using Cons.prems(2) by simp
    then have "first_pos (pre @ [x]) x = length pre"
      using first_pos_append_notin[of x pre "[x]"] by (simp add: first_pos_def)
    moreover have "\<forall>a\<in>set acc. first_pos (pre @ [x]) a < length pre"
      using Cons.prems(2) by (simp add: first_pos_append_in first_pos_less)
    ultimately show ?thesis using old False by (simp add: sorted_wrt_append)
  qed
  from Cons.IH[OF d s o] show ?case by simp
qed

text \<open>
  C10. The list left by the duplicate-removal loop holds every string of
  \<open>courses_found\<close>, each exactly once, and a string whose first occurrence in
  \<open>courses_found\<close> comes earlier stands earlier in it.
\<close>

theorem unique_courses_first_occurrences:
  "distinct (unique_courses found) \<and> set (unique_courses found) = set found
   \<and> sorted_wrt (\<lambda>a b. first_pos found a < first_pos found b) (unique_courses found)"
  using unique_loop_inv[of "[]" "[]" found] by (simp add: unique_courses_def)

section \<open>Failures while fetching\<close>

lemma iteration_cong:
  "fetch_doc site' (page_url (page s)) = fetch_doc site (page_url (page s)) \<Longrightarrow>
   iteration site' s = iteration site s"
  by (simp add: iteration_def)

lemma while_True_reaches:
  "page s \<le> n \<Longrightarrow>
   (\<forall>p. page s \<le> p \<and> p < n \<longrightarrow>
        goes_on site p \<and> fetch_doc site' (page_url p) = fetch_doc site (page_url p)) \<Longrightarrow>
   \<exists>s1. while_True site s = while_True site s1 \<and> while_True site' s = while_True site' s1
        \<and> page s1 = n
        \<and> all_quotes s1 = all_quotes s @ concat (map (records_on site) [page s..<n])
        \<and> requested s1 = requested s @ map page_url [page s..<n]"
proof (induction "n - page s" arbitrary: s)
  case 0
  then show ?case by auto
next
  case (Suc d)
  then have lt: "page s < n" by simp
  with Suc.prems have g: "goes_on site (page s)"
    and c: "fetch_doc site' (page_url (page s)) = fetch_doc site (page_url (page s))" by simp_all
  from iteration_goes_on[OF g] obtain s0 where
    s0: "iteration site s = Continue s0" "page s0 = Suc (page s)"
        "all_quotes s0 = all_quotes s @ records_on site (page s)"
        "requested s0 = requested s @ [page_url (page s)]" by blast
  have s0': "iteration site' s = Continue s0" using iteration_cong[OF c] s0(1) by simp
  have w: "while_True site s = while_True site s0" using s0(1) by (subst while_True.simps) simp
  have w': "while_True site' s = while_True site' s0" using s0' by (subst while_True.simps) simp
  have "d = n - page s0" using Suc(2) s0(2) by simp
  moreover have "page s0 \<le> n" using lt s0(2) by simp
  moreover have "\<forall>p. page s0 \<le> p \<and> p < n \<longrightarrow>
        goes_on site p \<and> fetch_doc site' (page_url p) = fetch_doc site (page_url p)"
    using Suc.prems(2) s0(2) by simp
  ultimately obtain s1 where
    s1: "while_True site s0 = while_True site s1" "while_True site' s0 = while_True site' s1"
        "page s1 = n"
        "all_quotes s1 = all_quotes s0 @ concat (map (records_on site) [page s0..<n])"
        "requested s1 = requested s0 @ map page_url [page s0..<n]"
    using Suc(1)[of s0] by blast
  have up: "[page s..<n] = page s # [page s0..<n]" using lt s0(2) by (simp add: upt_conv_Cons)
  show ?case using w w' s1 s0(3,4) up by (intro exI[of _ s1]) simp
qed

lemma iteration_fails:
  "fetch_doc site (page_url (page s)) = Inl e \<Longrightarrow>
   iteration site s =
     except e (println (''Scraping page '' @ str_nat (page s) @ ''...'') s
                 \<lparr>requested := requested s @ [page_url (page s)]\<rparr>)"
  by (simp add: iteration_def Let_def println_def)

lemma run_caught:
  assumes "while_True site initial = while_True site s1"
    and "fetch_doc site (page_url (page s1)) = Inl e" and "is_RequestException e"
  shows "scrape_quotes_to_scrape site =
     Some \<lparr>printed = stdout s1 @ [''Scraping page '' @ str_nat (page s1) @ ''...'',
                                  error_line (page s1) e, completed_line (length (all_quotes s1))],
           fetched = requested s1 @ [page_url (page s1)], outcome = Inr (all_quotes s1)\<rparr>"
proof -
  let ?s2 = "println (''Scraping page '' @ str_nat (page s1) @ ''...'') s1
               \<lparr>requested := requested s1 @ [page_url (page s1)]\<rparr>"
  let ?s3 = "println (error_line (page s1) e) ?s2"
  have "iteration site s1 = Leave (Break_error e) ?s3"
    using iteration_fails[OF assms(2)] assms(3) by (simp add: except_def error_line_def println_def)
  then have "while_True site initial = Some (Break_error e, ?s3)"
    unfolding assms(1) by (subst while_True.simps) simp
  then show ?thesis
    by (simp add: scrape_quotes_to_scrape_def println_def completed_line_def)
qed

lemma run_uncaught:
  assumes "while_True site initial = while_True site s1"
    and "fetch_doc site (page_url (page s1)) = Inl e" and "\<not> is_RequestException e"
  shows "scrape_quotes_to_scrape site =
     Some \<lparr>printed = stdout s1 @ [''Scraping page '' @ str_nat (page s1) @ ''...''],
           fetched = requested s1 @ [page_url (page s1)], outcome = Inl e\<rparr>"
proof -
  let ?s2 = "println (''Scraping page '' @ str_nat (page s1) @ ''...'') s1
               \<lparr>requested := requested s1 @ [page_url (page s1)]\<rparr>"
  have "iteration site s1 = Leave (Raised e) ?s2"
    using iteration_fails[OF assms(2)] assms(3) by (simp add: except_def)
  then have "while_True site initial = Some (Raised e, ?s2)"
    unfolding assms(1) by (subst while_True.simps) simp
  then show ?thesis
    by (simp add: scrape_quotes_to_scrape_def println_def)
qed

lemma reaches_from_initial:
  assumes "1 \<le> n"
    and "\<forall>p. 1 \<le> p \<and> p < n \<longrightarrow>
           goes_on site p \<and> fetch_doc site' (page_url p) = fetch_doc site (page_url p)"
  shows "\<exists>s1. while_True site initial = while_True site s1
          \<and> while_True site' initial = while_True site' s1 \<and> page s1 = n
          \<and> all_quotes s1 = concat (map (records_on site) [1..<n])
          \<and> requested s1 @ [page_url n] = map page_url [1..<Suc n]"
proof -
  have "page initial \<le> n" using assms(1) by (simp add: initial_def)
  moreover have "\<forall>p. page initial \<le> p \<and> p < n \<longrightarrow>
        goes_on site p \<and> fetch_doc site' (page_url p) = fetch_doc site (page_url p)"
    using assms(2) by (simp add: initial_def)
  ultimately obtain s1 where
    s1: "while_True site initial = while_True site s1"
        "while_True site' initial = while_True site' s1" "page s1 = n"
        "all_quotes s1 = all_quotes initial @ concat (map (records_on site) [page initial..<n])"
        "requested s1 = requested initial @ map page_url [page initial..<n]"
    using while_True_reaches[of initial n site site'] by blast
  have "all_quotes s1 = concat (map (records_on site) [1..<n])"
    and "requested s1 @ [page_url n] = map page_url [1..<Suc n]"
    using s1(4,5) assms(1) by (simp_all add: initial_def)
  with s1(1,2,3) show ?thesis by blast
qed

text \<open>
  C3, as the code has it. When the first page that cannot be fetched or parsed raises an
  exception of the \<open>requests.RequestException\<close> family, the function prints
  \<open>Error scraping page n: ...\<close>, leaves the loop and returns the dictionaries of the
  pages before; the returned value itself carries no failure report. An exception of any
  other class is not caught: it leaves the function, and nothing is returned.
\<close>

theorem request_failure_returns_partial_results:
  assumes "1 \<le> n" and "\<forall>p. 1 \<le> p \<and> p < n \<longrightarrow> goes_on site p"
    and "fetch_doc site (page_url n) = Inl e"
  shows "(is_RequestException e \<longrightarrow>
            (\<exists>r ls. scrape_quotes_to_scrape site = Some r
               \<and> outcome r = Inr (concat (map (records_on site) [1..<n]))
               \<and> fetched r = map page_url [1..<Suc n]
               \<and> printed r = ls @ [error_line n e,
                                    completed_line (length (concat (map (records_on site) [1..<n])))]))
       \<and> (\<not> is_RequestException e \<longrightarrow>
            (\<exists>r. scrape_quotes_to_scrape site = Some r \<and> outcome r = Inl e
               \<and> fetched r = map page_url [1..<Suc n]))"
proof -
  from reaches_from_initial[of n site site] assms(1,2) obtain s1 where
    s1: "while_True site initial = while_True site s1" "page s1 = n"
        "all_quotes s1 = concat (map (records_on site) [1..<n])"
        "requested s1 @ [page_url n] = map page_url [1..<Suc n]"
    by auto
  have f: "fetch_doc site (page_url (page s1)) = Inl e" using assms(3) s1(2) by simp
  show ?thesis
  proof (cases "is_RequestException e")
    case True
    from run_caught[OF s1(1) f True] s1(2,3,4) True show ?thesis by simp
  next
    case False
    from run_uncaught[OF s1(1) f False] s1(2,3,4) False show ?thesis by simp
  qed
qed

theorem timeout_and_parser_fault_on_page_2:
  "goes_on (failing_site (Exc Timeout ''Read timed out.'')) 1
   \<and> fetch_doc (failing_site (Exc Timeout ''Read timed out.'')) (page_url 2)
       = Inl (Exc Timeout ''Read timed out.'')
   \<and> (\<exists>r ls. scrape_quotes_to_scrape (failing_site (Exc Timeout ''Read timed out.'')) = Some r
         \<and> outcome r = Inr (take 2 mock_records)
         \<and> fetched r = [''http://quotes.toscrape.com/page/1/'', ''http://quotes.toscrape.com/page/2/'']
         \<and> printed r = ls @ [''Error scraping page 2: Read timed out.'',
                              CHR 0x0A # ''Scraping completed! Total quotes collected: 2''])
   \<and> goes_on rejected_site 1
   \<and> fetch_doc rejected_site (page_url 2) = Inl (Exc Exception ''ParserRejectedMarkup'')
   \<and> (\<exists>r. scrape_quotes_to_scrape rejected_site = Some r
         \<and> outcome r = Inl (Exc Exception ''ParserRejectedMarkup'')
         \<and> fetched r = [''http://quotes.toscrape.com/page/1/'', ''http://quotes.toscrape.com/page/2/''])"
proof -
  let ?t = "failing_site (Exc Timeout ''Read timed out.'')"
  have g: "goes_on ?t 1" by code_simp
  have f: "fetch_doc ?t (page_url 2) = Inl (Exc Timeout ''Read timed out.'')" by code_simp
  have g': "goes_on rejected_site 1" by code_simp
  have f': "fetch_doc rejected_site (page_url 2) = Inl (Exc Exception ''ParserRejectedMarkup'')"
    by code_simp
  have b: "\<forall>p. 1 \<le> p \<and> p < 2 \<longrightarrow> goes_on ?t p"
    and b': "\<forall>p. 1 \<le> p \<and> p < 2 \<longrightarrow> goes_on rejected_site p"
    using g g' by (auto simp: le_less_Suc_eq numeral_2_eq_2)
  have recs: "concat (map (records_on ?t) [1..<2]) = take 2 mock_records" by code_simp
  have urls: "map page_url [1..<Suc 2]
      = [''http://quotes.toscrape.com/page/1/'', ''http://quotes.toscrape.com/page/2/'']"
    by code_simp
  have el: "error_line 2 (Exc Timeout ''Read timed out.'') = ''Error scraping page 2: Read timed out.''"
    by code_simp
  have cl: "completed_line (length (take 2 mock_records))
      = CHR 0x0A # ''Scraping completed! Total quotes collected: 2''"
    by code_simp
  have n: "(1::nat) \<le> 2" by simp
  have k: "is_RequestException (Exc Timeout ''Read timed out.'')"
    and k': "\<not> is_RequestException (Exc Exception ''ParserRejectedMarkup'')" by simp_all
  note caught = request_failure_returns_partial_results[of 2 ?t, OF n b f, THEN conjunct1,
      THEN mp, OF k, unfolded recs urls el cl]
  note escaped = request_failure_returns_partial_results[of 2 rejected_site, OF n b' f',
      THEN conjunct2, THEN mp, OF k', unfolded urls]
  show ?thesis
    using g f g' f' caught escaped by (intro conjI)
qed

text \<open>
  The claim as the specification states it (no fetch or parse error reaches the caller)
  fails when the parser raises on page 2.
\<close>

theorem parser_exception_escapes:
  "map_option outcome (scrape_quotes_to_scrape rejected_site)
     = Some (Inl (Exc Exception ''ParserRejectedMarkup''))"
  by code_simp

text \<open>
  C4, as the code has it. Two runs that meet request exceptions of whatever classes on
  the same page, after the same pages, print the same lines except for the message of
  the exception and return the same list, the dictionaries of the pages before. The
  class of the exception appears nowhere in what the caller gets.
\<close>

theorem request_failures_end_the_run_alike:
  assumes "1 \<le> n"
    and "\<forall>p. 1 \<le> p \<and> p < n \<longrightarrow>
           goes_on site p \<and> fetch_doc site' (page_url p) = fetch_doc site (page_url p)"
    and "fetch_doc site (page_url n) = Inl (Exc c m)"
    and "fetch_doc site' (page_url n) = Inl (Exc c' m')"
    and "c \<noteq> Exception" and "c' \<noteq> Exception"
  shows "\<exists>ls. scrape_quotes_to_scrape site =
             Some \<lparr>printed = ls @ [''Error scraping page '' @ str_nat n @ '': '' @ m,
                                   completed_line (length (concat (map (records_on site) [1..<n])))],
                   fetched = map page_url [1..<Suc n],
                   outcome = Inr (concat (map (records_on site) [1..<n]))\<rparr>
          \<and> scrape_quotes_to_scrape site' =
             Some \<lparr>printed = ls @ [''Error scraping page '' @ str_nat n @ '': '' @ m',
                                   completed_line (length (concat (map (records_on site) [1..<n])))],
                   fetched = map page_url [1..<Suc n],
                   outcome = Inr (concat (map (records_on site) [1..<n]))\<rparr>"
proof -
  from reaches_from_initial[OF assms(1,2)] obtain s1 where
    s1: "while_True site initial = while_True site s1"
        "while_True site' initial = while_True site' s1" "page s1 = n"
        "all_quotes s1 = concat (map (records_on site) [1..<n])"
        "requested s1 @ [page_url n] = map page_url [1..<Suc n]"
    by blast
  have f: "fetch_doc site (page_url (page s1)) = Inl (Exc c m)"
    and f': "fetch_doc site' (page_url (page s1)) = Inl (Exc c' m')"
    using assms(3,4) s1(3) by simp_all
  have r: "is_RequestException (Exc c m)" and r': "is_RequestException (Exc c' m')"
    using assms(5,6) by simp_all
  from run_caught[OF s1(1) f r] run_caught[OF s1(2) f' r'] s1(3,4,5)
  show ?thesis
    by (intro exI[of _ "stdout s1 @ [''Scraping page '' @ str_nat n @ ''...'']"])
       (simp add: error_line_def)
qed

theorem http_404_and_timeout_end_alike:
  "goes_on (status_site 404 ''Not Found'') 1
   \<and> fetch_doc (failing_site (Exc Timeout ''Read timed out.'')) (page_url 1)
       = fetch_doc (status_site 404 ''Not Found'') (page_url 1)
   \<and> fetch_doc (status_site 404 ''Not Found'') (page_url 2)
       = Inl (Exc HTTPError
               ''404 Client Error: Not Found for url: http://quotes.toscrape.com/page/2/'')
   \<and> fetch_doc (failing_site (Exc Timeout ''Read timed out.'')) (page_url 2)
       = Inl (Exc Timeout ''Read timed out.'')
   \<and> (\<exists>ls. scrape_quotes_to_scrape (status_site 404 ''Not Found'') =
             Some \<lparr>printed = ls @ [''Error scraping page 2: 404 Client Error: Not Found for url: http://quotes.toscrape.com/page/2/'',
                                   CHR 0x0A # ''Scraping completed! Total quotes collected: 2''],
                   fetched = [''http://quotes.toscrape.com/page/1/'',
                              ''http://quotes.toscrape.com/page/2/''],
                   outcome = Inr (take 2 mock_records)\<rparr>
          \<and> scrape_quotes_to_scrape (failing_site (Exc Timeout ''Read timed out.'')) =
             Some \<lparr>printed = ls @ [''Error scraping page 2: Read timed out.'',
                                   CHR 0x0A # ''Scraping completed! Total quotes collected: 2''],
                   fetched = [''http://quotes.toscrape.com/page/1/'',
                              ''http://quotes.toscrape.com/page/2/''],
                   outcome = Inr (take 2 mock_records)\<rparr>)"
proof -
  let ?h = "status_site 404 ''Not Found''"
  let ?t = "failing_site (Exc Timeout ''Read timed out.'')"
  have g: "goes_on ?h 1" by code_simp
  have c: "fetch_doc ?t (page_url 1) = fetch_doc ?h (page_url 1)" by code_simp
  have f: "fetch_doc ?h (page_url 2)
       = Inl (Exc HTTPError
               ''404 Client Error: Not Found for url: http://quotes.toscrape.com/page/2/'')"
    by code_simp
  have f': "fetch_doc ?t (page_url 2) = Inl (Exc Timeout ''Read timed out.'')" by code_simp
  have b: "\<forall>p. 1 \<le> p \<and> p < 2 \<longrightarrow>
             goes_on ?h p \<and> fetch_doc ?t (page_url p) = fetch_doc ?h (page_url p)"
    using g c by (auto simp: le_less_Suc_eq numeral_2_eq_2)
  have recs: "concat (map (records_on ?h) [1..<2]) = take 2 mock_records" by code_simp
  have urls: "map page_url [1..<Suc 2]
      = [''http://quotes.toscrape.com/page/1/'', ''http://quotes.toscrape.com/page/2/'']"
    by code_simp
  have cl: "completed_line (length (take 2 mock_records))
      = CHR 0x0A # ''Scraping completed! Total quotes collected: 2''"
    by code_simp
  have s2: "str_nat 2 = ''2''" by code_simp
  have n: "(1::nat) \<le> 2" by simp
  have k: "HTTPError \<noteq> Exception" and k': "Timeout \<noteq> Exception" by simp_all
  note alike = request_failures_end_the_run_alike[of 2 ?h ?t, OF n b f f' k k']
  show ?thesis
    using g c f f' alike[unfolded recs urls cl s2] by simp
qed

text \<open>
  The claim as the specification states it (a distinct failure kind for the caller)
  fails: a timeout and a connection error with the same message give the same run, and
  a timeout, an HTTP 404 and a page 2 without quotes give the same returned list.
\<close>

theorem failure_kinds_give_the_same_return_value:
  "scrape_quotes_to_scrape (failing_site (Exc Timeout ''failed''))
     = scrape_quotes_to_scrape (failing_site (Exc ConnectionError ''failed''))
   \<and> map_option outcome (scrape_quotes_to_scrape (failing_site (Exc Timeout ''failed'')))
     = map_option outcome (scrape_quotes_to_scrape (status_site 404 ''Not Found''))
   \<and> map_option outcome (scrape_quotes_to_scrape (status_site 404 ''Not Found''))
     = map_option outcome (scrape_quotes_to_scrape (status_site 200 ''OK''))
   \<and> map_option outcome (scrape_quotes_to_scrape (status_site 404 ''Not Found''))
     = Some (Inr (take 2 mock_records))"
  by code_simp

section \<open>Fields of a quote\<close>

text \<open>
  C5, as the code has it. The dictionary of a quote always has the four keys \<open>text\<close>,
  \<open>author\<close>, \<open>tags\<close> and \<open>page\<close>. Without a \<open>.text\<close> element the text is
  \<open>"No text"\<close>, without an \<open>.author\<close> element the author is \<open>"Unknown"\<close>, and without
  \<open>.tag\<close> elements the tags are the empty list.
\<close>

theorem missing_fields_get_their_defaults:
  "(select_one (Class ''text'') quote = None \<longrightarrow> text_of (extract_quote p quote) = ''No text'')
   \<and> (select_one (Class ''author'') quote = None \<longrightarrow> author_of (extract_quote p quote) = ''Unknown'')
   \<and> (select (Class ''tag'') quote = [] \<longrightarrow> tags_of (extract_quote p quote) = [])
   \<and> page_of (extract_quote p quote) = p
   \<and> map fst (quote_dict (extract_quote p quote)) = [''text'', ''author'', ''tags'', ''page'']"
  by (simp add: extract_quote_def quote_dict_def Let_def)

theorem bare_quote_gets_defaults:
  "select_one (Class ''text'') bare_quote = None
   \<and> select_one (Class ''author'') bare_quote = None
   \<and> select (Class ''tag'') bare_quote = []
   \<and> extract_quote 7 bare_quote
       = \<lparr>text_of = ''No text'', author_of = ''Unknown'', tags_of = [], page_of = 7\<rparr>
   \<and> map fst (quote_dict (extract_quote 7 bare_quote)) = [''text'', ''author'', ''tags'', ''page'']"
proof -
  have t: "select_one (Class ''text'') bare_quote = None" by code_simp
  have a: "select_one (Class ''author'') bare_quote = None" by code_simp
  have g: "select (Class ''tag'') bare_quote = []" by code_simp
  from missing_fields_get_their_defaults[of bare_quote 7] t a g show ?thesis by simp
qed

text \<open>
  The claim as the specification states it (placeholder \<open>"No <fieldname>"\<close> for every
  single field) fails for the author.
\<close>

theorem missing_author_is_not_No_author:
  "select_one (Class ''author'') bare_quote = None
   \<and> author_of (extract_quote 1 bare_quote) = ''Unknown''
   \<and> author_of (extract_quote 1 bare_quote) \<noteq> ''No author''"
  by code_simp

section \<open>The URLs requested\<close>

lemma map_of_retarget:
  "map_of (map (\<lambda>(k, v). (k, if k = h then f v else v)) a) k'
     = (if k' = h then map_option f (map_of a k') else map_of a k')"
  by (induction a) auto

lemma descendants_retarget: "descendants (retarget f n) = map (retarget f) (descendants n)"
proof (induction n)
  case (Tag n a cs)
  then have "map (\<lambda>c. c # descendants c) (map (retarget f) cs)
      = map (map (retarget f)) (map (\<lambda>c. c # descendants c) cs)"
    by simp
  then show ?case by (simp only: retarget.simps descendants.simps map_concat)
next
  case (NavigableString s)
  then show ?case by simp
qed

lemma matches_retarget: "matches sel (retarget f n) = matches sel n"
  by (cases sel; cases n) (simp_all add: map_of_retarget)

lemma select_retarget: "select sel (retarget f d) = map (retarget f) (select sel d)"
  by (simp add: select_def descendants_retarget filter_map comp_def matches_retarget)

lemma select_one_retarget:
  "select_one sel (retarget f d) = map_option (retarget f) (select_one sel d)"
  by (simp add: select_one_def select_retarget split: list.splits)

lemma strings_retarget: "strings (retarget f n) = strings n"
  by (induction n) (simp_all cong: map_cong)

lemma get_text_strip_retarget: "get_text_strip (retarget f n) = get_text_strip n"
  by (simp add: get_text_strip_def strings_retarget)

lemma extract_quote_retarget: "extract_quote p (retarget f q) = extract_quote p q"
  by (simp add: extract_quote_def Let_def select_one_retarget select_retarget
      get_text_strip_retarget comp_def split: option.splits)

lemma for_quote_retarget: "for_quote (retarget f q) = for_quote q"
  by (rule ext) (simp add: for_quote_def extract_quote_retarget)

lemma fold_for_quote_retarget: "fold for_quote (map (retarget f) qs) s = fold for_quote qs s"
  by (simp add: fold_map comp_def for_quote_retarget)

lemma fetch_doc_relinked:
  "fetch_doc (relinked f site) u
     = (case fetch_doc site u of Inl e \<Rightarrow> Inl e | Inr d \<Rightarrow> Inr (retarget f d))"
proof (cases "site u")
  case (Inl e)
  then show ?thesis by (simp add: fetch_doc_def relinked_def)
next
  case (Inr r)
  have rs: "raise_for_status (r\<lparr>soup := x\<rparr>) = raise_for_status r" for x
    by (simp add: raise_for_status_def)
  show ?thesis
  proof (cases "raise_for_status r")
    case (Inl e)
    with Inr rs show ?thesis by (simp add: fetch_doc_def relinked_def)
  next
    case ok: (Inr x)
    with Inr rs show ?thesis by (simp add: fetch_doc_def relinked_def)
  qed
qed

lemma iteration_relinked: "iteration (relinked f site) s = iteration site s"
proof (cases "fetch_doc site (page_url (page s))")
  case (Inl e)
  then show ?thesis by (simp add: iteration_def fetch_doc_relinked)
next
  case (Inr d)
  then have r: "fetch_doc (relinked f site) (page_url (page s)) = Inr (retarget f d)"
    by (simp add: fetch_doc_relinked)
  show ?thesis
    unfolding iteration_def Let_def r Inr
    by (simp add: select_retarget select_one_retarget fold_for_quote_retarget)
qed

lemma bounded_cong:
  "(\<And>s. iteration site' s = iteration site s) \<Longrightarrow> bounded k site' s = bounded k site s"
  by (induction k arbitrary: s) (simp_all split: step.splits)

lemma while_True_cong:
  assumes "\<And>s. iteration site' s = iteration site s"
  shows "while_True site' s = while_True site s"
proof (cases "while_True site s")
  case None
  show ?thesis
  proof (cases "while_True site' s")
    case None
    with \<open>while_True site s = None\<close> show ?thesis by simp
  next
    case (Some r)
    from while_True_bounded[OF Some] obtain k where "bounded k site' s = Some r" by blast
    then have "bounded k site s = Some r" using bounded_cong[of site' site k s] assms by simp
    from bounded_while_True[OF this] None show ?thesis by simp
  qed
next
  case (Some r)
  from while_True_bounded[OF Some] obtain k where "bounded k site s = Some r" by blast
  then have "bounded k site' s = Some r" using bounded_cong[of site' site k s] assms by simp
  from bounded_while_True[OF this] Some show ?thesis by simp
qed

text \<open>
  C8. The URLs requested are \<open>base_url + "/page/" + str(p) + "/"\<close> for \<open>p\<close> = 1, 2, ...,
  \<open>n\<close>, in this order, whatever the pages contain; and rewriting every \<open>href\<close> of every
  page (that of the \<open>.next\<close> link included) changes nothing of what the function
  prints, requests and returns: no \<open>href\<close> is read.
\<close>

theorem fetched_urls_follow_the_page_counter:
  "(scrape_quotes_to_scrape site = Some r \<longrightarrow>
      (\<exists>n\<ge>1. fetched r
          = map (\<lambda>p. ''http://quotes.toscrape.com'' @ ''/page/'' @ str_nat p @ ''/'') [1..<Suc n]))
   \<and> scrape_quotes_to_scrape (relinked f site) = scrape_quotes_to_scrape site"
proof
  show "scrape_quotes_to_scrape site = Some r \<longrightarrow>
      (\<exists>n\<ge>1. fetched r
          = map (\<lambda>p. ''http://quotes.toscrape.com'' @ ''/page/'' @ str_nat p @ ''/'') [1..<Suc n])"
  proof
    assume run: "scrape_quotes_to_scrape site = Some r"
    then obtain e s where loop: "while_True site initial = Some (e, s)"
      by (auto simp: scrape_quotes_to_scrape_def split: option.splits)
    have f: "fetched r = requested s"
      using run loop by (cases e) (auto simp: scrape_quotes_to_scrape_def)
    from while_True_result[OF loop]
    have n: "1 \<le> page s" and q: "requested s = map page_url [1..<Suc (page s)]"
      by (simp_all add: initial_def)
    have "fetched r
          = map (\<lambda>p. ''http://quotes.toscrape.com'' @ ''/page/'' @ str_nat p @ ''/'') [1..<Suc (page s)]"
      unfolding f q by (intro map_cong refl) (simp only: page_url_def base_url_def)
    with n show "\<exists>n\<ge>1. fetched r
          = map (\<lambda>p. ''http://quotes.toscrape.com'' @ ''/page/'' @ str_nat p @ ''/'') [1..<Suc n]"
      by (intro exI[of _ "page s"] conjI)
  qed
  show "scrape_quotes_to_scrape (relinked f site) = scrape_quotes_to_scrape site"
    by (simp add: scrape_quotes_to_scrape_def while_True_cong[OF iteration_relinked])
qed

theorem mock_links_do_not_matter:
  "scrape_quotes_to_scrape mock_site = Some mock_run
   \<and> (\<exists>n\<ge>1. fetched mock_run
          = map (\<lambda>p. ''http://quotes.toscrape.com'' @ ''/page/'' @ str_nat p @ ''/'') [1..<Suc n])
   \<and> fetch_doc (relinked (\<lambda>h. ''/tag/love/'') mock_site) (page_url 1)
       = Inr (document [retarget (\<lambda>h. ''/tag/love/'') (quote_div ''A'' ''Ann'' [''a'', ''b'']),
                        quote_div ''B'' ''Bob'' [], next_li ''/tag/love/''])
   \<and> scrape_quotes_to_scrape (relinked (\<lambda>h. ''/tag/love/'') mock_site) = Some mock_run"
proof -
  have run: "scrape_quotes_to_scrape mock_site = Some mock_run" by code_simp
  have d: "fetch_doc (relinked (\<lambda>h. ''/tag/love/'') mock_site) (page_url 1)
       = Inr (document [retarget (\<lambda>h. ''/tag/love/'') (quote_div ''A'' ''Ann'' [''a'', ''b'']),
                        quote_div ''B'' ''Bob'' [], next_li ''/tag/love/''])"
    by code_simp
  note t = fetched_urls_follow_the_page_counter[of mock_site mock_run "\<lambda>h. ''/tag/love/''"]
  from t run d show ?thesis by simp
qed

section \<open>Indexing in \<open>analyze_scraped_data\<close>\<close>

lemma length_quote_lengths: "length (quote_lengths quotes) = length quotes"
  by (simp add: quote_lengths_def)

lemma getitem_first: "xs \<noteq> [] \<Longrightarrow> getitem xs 0 = Inr (xs ! 0)"
  by (simp add: getitem_def)

lemma getitem_last: "xs \<noteq> [] \<Longrightarrow> getitem xs (- 1) = Inr (xs ! (length xs - 1))"
  by (cases xs) (simp_all add: getitem_def)

text \<open>
  C9. On an empty list the function returns after \<open>No quotes to analyze!\<close>, before any
  indexing. On a non-empty list \<open>quote_lengths\<close> has one entry per quote, so both
  \<open>quote_lengths[0]\<close> and \<open>quote_lengths[-1]\<close> are in range. The function never raises
  \<open>IndexError\<close>.
\<close>

theorem analyze_scraped_data_indexes_in_bounds:
  "(quotes = [] \<longrightarrow>
      analyze_scraped_data quotes = Inr [CHR 0x0A # ''=== Data Analysis ==='', ''No quotes to analyze!''])
   \<and> (quotes \<noteq> [] \<longrightarrow>
      getitem (quote_lengths quotes) 0 = Inr (quote_lengths quotes ! 0)
      \<and> getitem (quote_lengths quotes) (- 1) = Inr (quote_lengths quotes ! (length quotes - 1)))
   \<and> length (quote_lengths quotes) = length quotes
   \<and> (\<exists>out. analyze_scraped_data quotes = Inr out)"
proof (cases "quotes = []")
  case True
  then show ?thesis by (simp add: analyze_scraped_data_def quote_lengths_def)
next
  case False
  then have ne: "quote_lengths quotes \<noteq> []"
    using length_quote_lengths[of quotes] by (metis length_0_conv)
  from getitem_first[OF ne] getitem_last[OF ne] False
  show ?thesis
    by (simp add: analyze_scraped_data_def Let_def length_quote_lengths)
qed


theorem analyze_mock_records_in_bounds:
  "analyze_scraped_data [] = Inr [CHR 0x0A # ''=== Data Analysis ==='', ''No quotes to analyze!'']
   \<and> mock_records \<noteq> []
   \<and> getitem (quote_lengths mock_records) 0 = Inr (1, ''A'', ''Ann'')
   \<and> getitem (quote_lengths mock_records) (- 1) = Inr (1, ''C'', ''Cy'')
   \<and> length (quote_lengths mock_records) = 3
   \<and> (\<exists>out. analyze_scraped_data mock_records = Inr out)"
proof -
  have ne: "mock_records \<noteq> []" by (simp add: mock_records_def)
  have l: "length mock_records = 3" by (simp add: mock_records_def)
  have first: "quote_lengths mock_records ! 0 = (1, ''A'', ''Ann'')" by code_simp
  have last: "quote_lengths mock_records ! (3 - 1) = (1, ''C'', ''Cy'')" by code_simp
  note empty = analyze_scraped_data_indexes_in_bounds[of "[]", THEN conjunct1, THEN mp, OF refl]
  note full = analyze_scraped_data_indexes_in_bounds[of mock_records, unfolded l first last]
  from empty full ne show ?thesis by simp
qed

end
